theory Spec2Isabelle
  imports Main "HOL-Library.Word"
begin

section \<open>The appliance controller of main.cc\<close>

text \<open>
  The program is one FreeRTOS task (\<open>app_main\<close>) and one interrupt callback (the lambda
  registered at line 89). The task is modelled by a program counter over the statements of
  \<open>app_main\<close>, the globals of main.cc, the two LEDs and the list of calls the task has
  made so far; the callback is a second kind of step that the environment may take between
  any two statements of the task.
\<close>

subsection \<open>Constants and globals (lines 15 to 35)\<close>

text \<open>A C \<open>int\<close> on the target is 32 bits wide; \<open>>\<close> on it is the signed comparison.\<close>

type_synonym int32 = "32 word"

definition kLlamaModelPath :: string where
  "kLlamaModelPath = ''/data/stories15M_q80.bin''"

definition kLlamaTokenizerPath :: string where
  "kLlamaTokenizerPath = ''/data/tokenizer.bin''"

definition kSteps :: int32 where
  "kSteps = 256"

definition kPrompt :: string where
  "kPrompt = []"

definition kButtonDebounceUs :: nat where
  "kButtonDebounceUs = 50000"

datatype Led = kStatus | kUser

text \<open>The two fields of \<open>transformer.config\<close> that main.cc reads.\<close>

record Config =
  seq_len :: int32
  vocab_size :: int32

text \<open>
  What the flash file system holds under the two paths. The header of a readable model
  file fixes the configuration and the quantisation group size that
  \<open>build_transformer\<close> stores; \<open>None\<close> is a missing or malformed model file. For
  the tokenizer only readability matters to main.cc.
\<close>

record flash =
  model_file :: "(Config \<times> int32) option"
  tokenizer_file :: bool

subsection \<open>Calls visible outside the task\<close>

datatype buffer = llama_model_buffer | llama_tokenizer_buffer

datatype message =
    Loading_Llama_model string
  | Llama_model_loading_took
  | Unloading_Llama_model
  | Generating_tokens
  | Averaged_tokens_per_s
  | Fatal_diagnostic string

datatype event =
    E_GpioConfigureInterrupt nat
  | E_LedSet Led bool
  | E_printf message
  | E_TimerMillis
  | E_new buffer
  | E_build_transformer string
  | E_build_tokenizer string int32
  | E_xTaskGetTickCount
  | E_build_sampler int32
  | E_free_sampler
  | E_free_tokenizer
  | E_free_transformer
  | E_delete buffer
  | E_generate string int32 int32
  | E_generate_returned
  | E_vTaskSuspend

text \<open>
  Program points of \<open>app_main\<close>, named by the line of the statement that runs next.
  \<open>L79\<close> is inside \<open>TellStory\<close>, while the call of \<open>generate\<close> at line 79 is under way.
  \<open>Halted\<close> is the end of the process after a fatal load failure.
\<close>

datatype location =
  L89 | L95 | L96 | L97 | L101 | L102 | L103 | L107 | L108 | L109 | L79 | Halted

record state =
  pc :: location
  suspended :: bool
  isr_registered :: bool
  led_status :: bool
  led_user :: bool
  transformer_config :: Config
  group_size :: int32
  steps :: int32
  trace :: "event list"

definition emit :: "event \<Rightarrow> state \<Rightarrow> state" where
  "emit e st = st\<lparr>trace := trace st @ [e]\<rparr>"

definition LedSet :: "Led \<Rightarrow> bool \<Rightarrow> state \<Rightarrow> state" where
  "LedSet l on st =
     emit (E_LedSet l on)
       (case l of kStatus \<Rightarrow> st\<lparr>led_status := on\<rparr> | kUser \<Rightarrow> st\<lparr>led_user := on\<rparr>)"

subsection \<open>The step budget (lines 45 to 47)\<close>

text \<open>
  \<^verbatim>\<open>if (steps == 0 || steps > transformer.config.seq_len) { steps = transformer.config.seq_len; }\<close>
  as a function of the requested budget and the model's maximum sequence length.
\<close>

definition ResolveStepBudget :: "int32 \<Rightarrow> int32 \<Rightarrow> int32" where
  "ResolveStepBudget r M = (if r = 0 \<or> M <s r then M else r)"

subsection \<open>The engine's loaders\<close>

text \<open>
  Modelled from the spec: \<open>build_transformer\<close> is declared in llama2.h, which is not
  among the sources. The spec (sections 4.1 and 7) says that a missing or malformed model
  artifact is fatal: the failure is reported on the diagnostic output and the process
  halts; otherwise the loader returns with the configuration read from the model's
  header. \<open>Inl\<close> carries the state in which the process halted.
\<close>

definition build_transformer :: "flash \<Rightarrow> string \<Rightarrow> state \<Rightarrow> state + state" where
  "build_transformer fl path st =
     (let st1 = emit (E_build_transformer path) st in
      case model_file fl of
        None \<Rightarrow> Inl (emit (E_printf (Fatal_diagnostic path)) st1)
      | Some (c, g) \<Rightarrow> Inr (st1\<lparr>transformer_config := c, group_size := g\<rparr>))"

text \<open>
  Modelled from the spec: \<open>build_tokenizer\<close> is declared in llama2.h as well. The spec
  (sections 4.1 and 7) gives a missing or malformed tokenizer artifact the same fatal
  outcome: a diagnostic, then the halt.
\<close>

definition build_tokenizer :: "flash \<Rightarrow> string \<Rightarrow> int32 \<Rightarrow> state \<Rightarrow> state + state" where
  "build_tokenizer fl path vocab st =
     (let st1 = emit (E_build_tokenizer path vocab) st in
      if tokenizer_file fl then Inr st1
      else Inl (emit (E_printf (Fatal_diagnostic path)) st1))"

subsection \<open>LoadLlamaModel, UnloadLlamaModel, TellStory\<close>

definition LoadLlamaModel :: "flash \<Rightarrow> state \<Rightarrow> state + state" where
  "LoadLlamaModel fl st =
     (let st1 = emit (E_printf (Loading_Llama_model kLlamaModelPath)) st;
          st2 = emit E_TimerMillis st1;
          st3 = emit (E_new llama_model_buffer) st2
      in case build_transformer fl kLlamaModelPath st3 of
           Inl h \<Rightarrow> Inl h
         | Inr st4 \<Rightarrow>
             (let st5 = st4\<lparr>steps := ResolveStepBudget (steps st4) (seq_len (transformer_config st4))\<rparr>;
                  st6 = emit (E_new llama_tokenizer_buffer) st5
              in case build_tokenizer fl kLlamaTokenizerPath (vocab_size (transformer_config st6)) st6 of
                   Inl h \<Rightarrow> Inl h
                 | Inr st7 \<Rightarrow>
                     (let st8 = emit E_xTaskGetTickCount st7;
                          st9 = emit (E_build_sampler (vocab_size (transformer_config st8))) st8;
                          st10 = emit E_TimerMillis st9
                      in Inr (emit (E_printf Llama_model_loading_took) st10))))"

definition UnloadLlamaModel :: "state \<Rightarrow> state" where
  "UnloadLlamaModel st =
     (let st1 = emit (E_printf Unloading_Llama_model) st;
          st2 = emit E_free_sampler st1;
          st3 = emit E_free_tokenizer st2;
          st4 = emit E_free_transformer st3;
          st5 = emit (E_delete llama_tokenizer_buffer) st4
      in emit (E_delete llama_model_buffer) st5)"

text \<open>
  \<open>TellStory\<close> in two halves, so that the interrupt can arrive while \<open>generate\<close> runs:
  up to the call of \<open>generate\<close> (lines 76 to 79), and from its return (line 82).
\<close>

definition TellStory_call :: "string \<Rightarrow> state \<Rightarrow> state" where
  "TellStory_call prompt st =
     emit (E_generate prompt (steps st) (group_size st)) (emit (E_printf Generating_tokens) st)"

definition TellStory_return :: "state \<Rightarrow> state" where
  "TellStory_return st = emit (E_printf Averaged_tokens_per_s) (emit E_generate_returned st)"

definition TellStory :: "string \<Rightarrow> state \<Rightarrow> state" where
  "TellStory prompt st = TellStory_return (TellStory_call prompt st)"

subsection \<open>The scheduler's two primitives\<close>

text \<open>
  The two calls into the FreeRTOS kernel. \<open>vTaskSuspend(nullptr)\<close> takes the calling
  task off the ready list until it is resumed. \<open>xTaskResumeFromISR\<close> makes the task
  ready again if it is suspended, and does nothing to a task that is not suspended: the
  kernel keeps no count and no flag of such calls. (The spec, section 4.2, describes the
  callback's one action in the same way: it marks the parked context as runnable.)
\<close>

definition vTaskSuspend :: "state \<Rightarrow> state" where
  "vTaskSuspend st = (emit E_vTaskSuspend st)\<lparr>suspended := True\<rparr>"

definition xTaskResumeFromISR :: "state \<Rightarrow> state" where
  "xTaskResumeFromISR st = (if suspended st then st\<lparr>suspended := False\<rparr> else st)"

subsection \<open>app_main (lines 85 to 114)\<close>

definition goto :: "location \<Rightarrow> state \<Rightarrow> state" where
  "goto l st = st\<lparr>pc := l\<rparr>"

definition app_main_step :: "flash \<Rightarrow> state \<Rightarrow> state" where
  "app_main_step fl st =
     (case pc st of
        L89 \<Rightarrow> goto L95 ((emit (E_GpioConfigureInterrupt kButtonDebounceUs) st)\<lparr>isr_registered := True\<rparr>)
      | L95 \<Rightarrow> goto L96 (LedSet kStatus True st)
      | L96 \<Rightarrow> goto L97 (LedSet kUser False st)
      | L97 \<Rightarrow> (case LoadLlamaModel fl st of
                  Inl h \<Rightarrow> goto Halted h
                | Inr st' \<Rightarrow> goto L101 st')
      | L101 \<Rightarrow> goto L102 (LedSet kStatus False st)
      | L102 \<Rightarrow> goto L103 (LedSet kUser True st)
      | L103 \<Rightarrow> goto L107 (vTaskSuspend st)
      | L107 \<Rightarrow> goto L108 (LedSet kStatus True st)
      | L108 \<Rightarrow> goto L109 (LedSet kUser False st)
      | L109 \<Rightarrow> goto L79 (TellStory_call kPrompt st)
      | L79 \<Rightarrow> goto L101 (TellStory_return st)
      | Halted \<Rightarrow> st)"

text \<open>
  The callback of line 91, run on every accepted (debounced) falling edge once the
  interrupt is registered.
\<close>

definition button_isr :: "state \<Rightarrow> state" where
  "button_isr st = (if isr_registered st then xTaskResumeFromISR st else st)"

text \<open>
  A schedule is what the environment does, in order: \<open>Run\<close> gives the task the processor
  for one statement (a suspended task does not run), \<open>Edge\<close> is an accepted button edge.
\<close>

datatype action = Run | Edge

fun sched_step :: "flash \<Rightarrow> action \<Rightarrow> state \<Rightarrow> state" where
  "sched_step fl Run st = (if suspended st then st else app_main_step fl st)"
| "sched_step fl Edge st = button_isr st"

fun run :: "flash \<Rightarrow> action list \<Rightarrow> state \<Rightarrow> state" where
  "run fl [] st = st"
| "run fl (a # as) st = run fl as (sched_step fl a st)"

text \<open>
  The state at boot: the globals as initialised at lines 26 to 32 (zero, but
  \<open>steps = kSteps\<close>), the LEDs as the board left them.
\<close>

definition boot :: "bool \<Rightarrow> bool \<Rightarrow> state" where
  "boot ls lu =
     \<lparr>pc = L89, suspended = False, isr_registered = False,
      led_status = ls, led_user = lu,
      transformer_config = \<lparr>seq_len = 0, vocab_size = 0\<rparr>,
      group_size = 0, steps = kSteps, trace = []\<rparr>"

text \<open>The controller's phase (the spec's ApplianceState), read off the task.\<close>

datatype ApplianceState = Initializing | Idle | Generating

definition phase :: "state \<Rightarrow> ApplianceState" where
  "phase st =
     (if pc st \<in> {L89, L95, L96, L97, Halted} then Initializing
      else if pc st \<in> {L101, L102, L103} \<or> suspended st then Idle
      else Generating)"

subsection \<open>Reading the list of calls\<close>

text \<open>The LEDs after a list of calls, from the LEDs before it: only \<open>LedSet\<close> changes them.\<close>

fun led_write :: "event \<Rightarrow> bool \<times> bool \<Rightarrow> bool \<times> bool" where
  "led_write (E_LedSet kStatus on) (s, u) = (on, u)"
| "led_write (E_LedSet kUser on) (s, u) = (s, on)"
| "led_write e leds = leds"

definition leds_after :: "bool \<times> bool \<Rightarrow> event list \<Rightarrow> bool \<times> bool" where
  "leds_after leds t = fold led_write t leds"

text \<open>
  The phase whose main action a call belongs to: the calls of \<open>LoadLlamaModel\<close>
  (Initializing), the suspension at line 103 (Idle), the calls of \<open>TellStory\<close>
  (Generating). The LED writes themselves and the registration of the interrupt at line 89,
  which the source places before the first LED write, belong to no main action; nor do
  the calls of \<open>UnloadLlamaModel\<close>.
\<close>

fun main_action :: "event \<Rightarrow> ApplianceState option" where
  "main_action (E_GpioConfigureInterrupt d) = None"
| "main_action (E_LedSet l on) = None"
| "main_action (E_printf m) =
     (case m of
        Loading_Llama_model p \<Rightarrow> Some Initializing
      | Llama_model_loading_took \<Rightarrow> Some Initializing
      | Fatal_diagnostic p \<Rightarrow> Some Initializing
      | Generating_tokens \<Rightarrow> Some Generating
      | Averaged_tokens_per_s \<Rightarrow> Some Generating
      | Unloading_Llama_model \<Rightarrow> None)"
| "main_action E_TimerMillis = Some Initializing"
| "main_action (E_new b) = Some Initializing"
| "main_action (E_build_transformer p) = Some Initializing"
| "main_action (E_build_tokenizer p v) = Some Initializing"
| "main_action E_xTaskGetTickCount = Some Initializing"
| "main_action (E_build_sampler v) = Some Initializing"
| "main_action (E_generate p n g) = Some Generating"
| "main_action E_generate_returned = Some Generating"
| "main_action E_vTaskSuspend = Some Idle"
| "main_action E_free_sampler = None"
| "main_action E_free_tokenizer = None"
| "main_action E_free_transformer = None"
| "main_action (E_delete b) = None"

text \<open>The indicator configuration (status LED, user LED) of each phase.\<close>

fun indicator_of :: "ApplianceState \<Rightarrow> bool \<times> bool" where
  "indicator_of Initializing = (True, False)"
| "indicator_of Idle = (False, True)"
| "indicator_of Generating = (True, False)"

fun indicators_lead :: "bool \<times> bool \<Rightarrow> event list \<Rightarrow> bool" where
  "indicators_lead leds [] = True"
| "indicators_lead leds (e # es) =
     ((case main_action e of None \<Rightarrow> True | Some p \<Rightarrow> leds = indicator_of p)
      \<and> indicators_lead (led_write e leds) es)"

text \<open>
  The program points at which a phase's two LED writes are both done: before the load
  (line 97) and after a fatal halt inside it, at the wait point (line 103, and while the
  task is suspended there), and at and inside the call of \<open>TellStory\<close>.
\<close>

definition indicators_settled :: "state \<Rightarrow> bool" where
  "indicators_settled st = (pc st \<in> {L97, L103, L109, L79, Halted} \<or> suspended st)"

text \<open>What holds of the LEDs and of the task's suspension at each program point.\<close>

definition led_inv :: "state \<Rightarrow> bool" where
  "led_inv st =
     (case pc st of
        L89 \<Rightarrow> \<not> suspended st
      | L95 \<Rightarrow> \<not> suspended st
      | L96 \<Rightarrow> \<not> suspended st \<and> led_status st
      | L97 \<Rightarrow> \<not> suspended st \<and> led_status st \<and> \<not> led_user st
      | L101 \<Rightarrow> \<not> suspended st
      | L102 \<Rightarrow> \<not> suspended st \<and> \<not> led_status st
      | L103 \<Rightarrow> \<not> suspended st \<and> \<not> led_status st \<and> led_user st
      | L107 \<Rightarrow> suspended st \<longrightarrow> \<not> led_status st \<and> led_user st
      | L108 \<Rightarrow> \<not> suspended st \<and> led_status st
      | L109 \<Rightarrow> \<not> suspended st \<and> led_status st \<and> \<not> led_user st
      | L79 \<Rightarrow> \<not> suspended st \<and> led_status st \<and> \<not> led_user st
      | Halted \<Rightarrow> \<not> suspended st \<and> led_status st \<and> \<not> led_user st)"

definition trace_inv :: "bool \<Rightarrow> bool \<Rightarrow> state \<Rightarrow> bool" where
  "trace_inv ls lu st =
     (led_inv st \<and> indicators_lead (ls, lu) (trace st)
      \<and> leds_after (ls, lu) (trace st) = (led_status st, led_user st))"

text \<open>The calls every run of \<open>LoadLlamaModel\<close> makes first (lines 39 to 43).\<close>

definition load_prefix :: "event list" where
  "load_prefix =
     [E_printf (Loading_Llama_model kLlamaModelPath), E_TimerMillis, E_new llama_model_buffer,
      E_build_transformer kLlamaModelPath]"

text \<open>
  A flash image for the concrete runs below: a model whose header gives a maximum sequence
  length of 256 and a vocabulary of 32000, and a readable tokenizer.
\<close>

definition stories15M :: flash where
  "stories15M =
     \<lparr>model_file = Some (\<lparr>seq_len = 256, vocab_size = 32000\<rparr>, 64), tokenizer_file = True\<rparr>"

subsection \<open>Counting engine calls\<close>

fun is_BuildEngine :: "event \<Rightarrow> bool" where
  "is_BuildEngine (E_build_transformer p) = True"
| "is_BuildEngine e = False"

fun is_TeardownEngine :: "event \<Rightarrow> bool" where
  "is_TeardownEngine E_free_sampler = True"
| "is_TeardownEngine E_free_tokenizer = True"
| "is_TeardownEngine E_free_transformer = True"
| "is_TeardownEngine (E_delete b) = True"
| "is_TeardownEngine e = False"

fun is_generate :: "event \<Rightarrow> bool" where
  "is_generate (E_generate p n g) = True"
| "is_generate e = False"

fun is_fatal :: "event \<Rightarrow> bool" where
  "is_fatal (E_printf (Fatal_diagnostic p)) = True"
| "is_fatal e = False"

definition BuildEngine_calls :: "event list \<Rightarrow> nat" where
  "BuildEngine_calls t = length (filter is_BuildEngine t)"

definition TeardownEngine_calls :: "event list \<Rightarrow> nat" where
  "TeardownEngine_calls t = length (filter is_TeardownEngine t)"

definition generate_calls :: "event list \<Rightarrow> nat" where
  "generate_calls t = length (filter is_generate t)"

definition load_inv :: "state \<Rightarrow> bool" where
  "load_inv st =
     (BuildEngine_calls (trace st) = (if pc st \<in> {L89, L95, L96, L97} then 0 else 1)
      \<and> TeardownEngine_calls (trace st) = 0)"

text \<open>The step budget a \<open>generate\<close> call was given; \<open>None\<close> for every other call.\<close>

fun budget_passed :: "event \<Rightarrow> int32 option" where
  "budget_passed (E_generate p n g) = Some n"
| "budget_passed e = None"

definition budget_inv :: "int32 \<Rightarrow> state \<Rightarrow> bool" where
  "budget_inv M st =
     ((if pc st \<in> {L89, L95, L96, L97} then steps st = kSteps
       else pc st = Halted \<or> steps st = ResolveStepBudget kSteps M)
      \<and> list_all (\<lambda>e. budget_passed e \<in> {None, Some (ResolveStepBudget kSteps M)}) (trace st))"

text \<open>How many statements of the task a schedule runs if the task is never suspended.\<close>

definition runs :: "action list \<Rightarrow> nat" where
  "runs sched = length (filter (\<lambda>a. a = Run) sched)"

text \<open>The program point after n statements when the load fails.\<close>

definition failing_pc :: "nat \<Rightarrow> location" where
  "failing_pc n = (if n = 0 then L89 else if n = 1 then L95 else if n = 2 then L96
                   else if n = 3 then L97 else Halted)"

text \<open>What holds at each program point of a run whose load fails.\<close>

definition halt_inv :: "state \<Rightarrow> bool" where
  "halt_inv st =
     (pc st \<in> {L89, L95, L96, L97, Halted}
      \<and> (pc st = Halted \<longrightarrow> list_ex is_fatal (trace st)))"

text \<open>Every edge of the schedule arrives while the controller is in Generating.\<close>

fun edges_in_Generating :: "flash \<Rightarrow> action list \<Rightarrow> state \<Rightarrow> bool" where
  "edges_in_Generating fl [] st = True"
| "edges_in_Generating fl (a # as) st =
     ((a = Edge \<longrightarrow> phase st = Generating) \<and> edges_in_Generating fl as (sched_step fl a st))"

text \<open>
  A Generating cycle and the return to the wait point, with n the number of \<open>generate\<close>
  calls once the cycle's own call is made.
\<close>

definition cycle_inv :: "nat \<Rightarrow> state \<Rightarrow> bool" where
  "cycle_inv n st =
     (case pc st of
        L107 \<Rightarrow> if suspended st then generate_calls (trace st) = n
                else generate_calls (trace st) + 1 = n
      | L108 \<Rightarrow> \<not> suspended st \<and> generate_calls (trace st) + 1 = n
      | L109 \<Rightarrow> \<not> suspended st \<and> generate_calls (trace st) + 1 = n
      | L79 \<Rightarrow> \<not> suspended st \<and> generate_calls (trace st) = n
      | L101 \<Rightarrow> \<not> suspended st \<and> generate_calls (trace st) = n
      | L102 \<Rightarrow> \<not> suspended st \<and> generate_calls (trace st) = n
      | L103 \<Rightarrow> \<not> suspended st \<and> generate_calls (trace st) = n
      | _ \<Rightarrow> False)"

subsection \<open>Resources of the engine\<close>

datatype resource = Weights | TokenizerTable | SamplerState

fun built :: "event \<Rightarrow> resource option" where
  "built (E_build_transformer p) = Some Weights"
| "built (E_build_tokenizer p v) = Some TokenizerTable"
| "built (E_build_sampler v) = Some SamplerState"
| "built e = None"

fun freed :: "event \<Rightarrow> resource option" where
  "freed E_free_transformer = Some Weights"
| "freed E_free_tokenizer = Some TokenizerTable"
| "freed E_free_sampler = Some SamplerState"
| "freed e = None"

fun allocated :: "event \<Rightarrow> buffer option" where
  "allocated (E_new b) = Some b"
| "allocated e = None"

fun deleted :: "event \<Rightarrow> buffer option" where
  "deleted (E_delete b) = Some b"
| "deleted e = None"

text \<open>The calls a function adds to the list of calls of the state it starts in.\<close>

definition calls_since :: "state \<Rightarrow> state \<Rightarrow> event list" where
  "calls_since st st' = drop (length (trace st)) (trace st')"

definition loaded_trace :: "event list" where
  "loaded_trace =
     [E_GpioConfigureInterrupt kButtonDebounceUs, E_LedSet kStatus True, E_LedSet kUser False,
      E_printf (Loading_Llama_model kLlamaModelPath), E_TimerMillis, E_new llama_model_buffer,
      E_build_transformer kLlamaModelPath, E_new llama_tokenizer_buffer,
      E_build_tokenizer kLlamaTokenizerPath 32000, E_xTaskGetTickCount, E_build_sampler 32000,
      E_TimerMillis, E_printf Llama_model_loading_took]"

section \<open>Helper lemmas\<close>

lemmas stmt_defs =
  app_main_step_def goto_def LedSet_def emit_def vTaskSuspend_def
  TellStory_call_def TellStory_return_def button_isr_def xTaskResumeFromISR_def

text \<open>Runs are unfolded only where a concrete schedule is evaluated.\<close>

declare run.simps [simp del]

lemma run_invariant:
  assumes "\<And>a s. P s \<Longrightarrow> P (sched_step fl a s)" and "P st"
  shows "P (run fl as st)"
  using assms(2) by (induction as arbitrary: st) (simp_all add: run.simps assms(1))

lemma run_append: "run fl (as @ bs) st = run fl bs (run fl as st)"
  by (induction as arbitrary: st) (simp_all add: run.simps)

subsection \<open>The three outcomes of LoadLlamaModel\<close>

lemma LoadLlamaModel_model_missing:
  "model_file fl = None \<Longrightarrow>
   LoadLlamaModel fl st =
     Inl (st\<lparr>trace := trace st @ load_prefix @ [E_printf (Fatal_diagnostic kLlamaModelPath)]\<rparr>)"
  by (simp add: LoadLlamaModel_def build_transformer_def emit_def load_prefix_def)

lemma LoadLlamaModel_tokenizer_missing:
  "model_file fl = Some (c, g) \<Longrightarrow> \<not> tokenizer_file fl \<Longrightarrow>
   LoadLlamaModel fl st =
     Inl (st\<lparr>transformer_config := c, group_size := g,
             steps := ResolveStepBudget (steps st) (seq_len c),
             trace := trace st @ load_prefix @
               [E_new llama_tokenizer_buffer, E_build_tokenizer kLlamaTokenizerPath (vocab_size c),
                E_printf (Fatal_diagnostic kLlamaTokenizerPath)]\<rparr>)"
  by (simp add: LoadLlamaModel_def build_transformer_def build_tokenizer_def emit_def load_prefix_def)

lemma LoadLlamaModel_ok:
  "model_file fl = Some (c, g) \<Longrightarrow> tokenizer_file fl \<Longrightarrow>
   LoadLlamaModel fl st =
     Inr (st\<lparr>transformer_config := c, group_size := g,
             steps := ResolveStepBudget (steps st) (seq_len c),
             trace := trace st @ load_prefix @
               [E_new llama_tokenizer_buffer, E_build_tokenizer kLlamaTokenizerPath (vocab_size c),
                E_xTaskGetTickCount, E_build_sampler (vocab_size c), E_TimerMillis,
                E_printf Llama_model_loading_took]\<rparr>)"
  by (simp add: LoadLlamaModel_def build_transformer_def build_tokenizer_def emit_def load_prefix_def)

lemma LoadLlamaModel_cases:
  obtains (model_missing) "model_file fl = None"
      "LoadLlamaModel fl st =
         Inl (st\<lparr>trace := trace st @ load_prefix @ [E_printf (Fatal_diagnostic kLlamaModelPath)]\<rparr>)"
    | (tokenizer_missing) c g where "model_file fl = Some (c, g)" "\<not> tokenizer_file fl"
      "LoadLlamaModel fl st =
         Inl (st\<lparr>transformer_config := c, group_size := g,
             steps := ResolveStepBudget (steps st) (seq_len c),
             trace := trace st @ load_prefix @
               [E_new llama_tokenizer_buffer, E_build_tokenizer kLlamaTokenizerPath (vocab_size c),
                E_printf (Fatal_diagnostic kLlamaTokenizerPath)]\<rparr>)"
    | (loaded) c g where "model_file fl = Some (c, g)" "tokenizer_file fl"
      "LoadLlamaModel fl st =
         Inr (st\<lparr>transformer_config := c, group_size := g,
             steps := ResolveStepBudget (steps st) (seq_len c),
             trace := trace st @ load_prefix @
               [E_new llama_tokenizer_buffer, E_build_tokenizer kLlamaTokenizerPath (vocab_size c),
                E_xTaskGetTickCount, E_build_sampler (vocab_size c), E_TimerMillis,
                E_printf Llama_model_loading_took]\<rparr>)"
proof (cases "model_file fl")
  case None
  then show ?thesis using model_missing LoadLlamaModel_model_missing by blast
next
  case (Some a)
  then obtain c g where cg: "model_file fl = Some (c, g)" by (cases a) simp
  show ?thesis
  proof (cases "tokenizer_file fl")
    case True
    then show ?thesis using loaded cg LoadLlamaModel_ok by blast
  next
    case False
    then show ?thesis using tokenizer_missing cg LoadLlamaModel_tokenizer_missing by blast
  qed
qed

lemma app_main_step_L97:
  "pc st = L97 \<Longrightarrow>
   app_main_step fl st =
     (case LoadLlamaModel fl st of Inl h \<Rightarrow> h\<lparr>pc := Halted\<rparr> | Inr st' \<Rightarrow> st'\<lparr>pc := L101\<rparr>)"
  by (simp add: app_main_step_def goto_def split: sum.splits)

subsection \<open>Concrete runs\<close>

lemmas eval_defs =
  run.simps boot_def stmt_defs LoadLlamaModel_def build_transformer_def build_tokenizer_def
  stories15M_def ResolveStepBudget_def kSteps_def loaded_trace_def

lemma boot_to_Idle:
  "run stories15M [Run, Run, Run, Run, Run, Run, Run] (boot False False) =
     \<lparr>pc = L107, suspended = True, isr_registered = True, led_status = False, led_user = True,
      transformer_config = \<lparr>seq_len = 256, vocab_size = 32000\<rparr>, group_size = 64, steps = 256,
      trace = loaded_trace @ [E_LedSet kStatus False, E_LedSet kUser True, E_vTaskSuspend]\<rparr>"
  by (simp add: eval_defs)

lemma boot_to_L109:
  "run stories15M [Run, Run, Run, Run, Run, Run, Run, Edge, Run, Run] (boot False False) =
     \<lparr>pc = L109, suspended = False, isr_registered = True, led_status = True, led_user = False,
      transformer_config = \<lparr>seq_len = 256, vocab_size = 32000\<rparr>, group_size = 64, steps = 256,
      trace = loaded_trace @ [E_LedSet kStatus False, E_LedSet kUser True, E_vTaskSuspend,
        E_LedSet kStatus True, E_LedSet kUser False]\<rparr>"
  by (simp add: eval_defs)

lemma boot_to_L79:
  "run stories15M [Run, Run, Run, Run, Run, Run, Run, Edge, Run, Run, Run] (boot False False) =
     \<lparr>pc = L79, suspended = False, isr_registered = True, led_status = True, led_user = False,
      transformer_config = \<lparr>seq_len = 256, vocab_size = 32000\<rparr>, group_size = 64, steps = 256,
      trace = loaded_trace @ [E_LedSet kStatus False, E_LedSet kUser True, E_vTaskSuspend,
        E_LedSet kStatus True, E_LedSet kUser False, E_printf Generating_tokens,
        E_generate kPrompt 256 64]\<rparr>"
  by (simp add: eval_defs)

lemma boot_to_L103:
  "run stories15M [Run, Run, Run, Run, Run, Run] (boot False False) =
     \<lparr>pc = L103, suspended = False, isr_registered = True, led_status = False, led_user = True,
      transformer_config = \<lparr>seq_len = 256, vocab_size = 32000\<rparr>, group_size = 64, steps = 256,
      trace = loaded_trace @ [E_LedSet kStatus False, E_LedSet kUser True]\<rparr>"
  by (simp add: eval_defs)

lemma mash_during_generate:
  "run stories15M
     [Run, Run, Run, Run, Run, Run, Run, Edge, Run, Run, Run, Edge, Edge, Edge,
      Run, Run, Run, Run, Run, Run, Run, Run]
     (boot False False) =
     \<lparr>pc = L107, suspended = True, isr_registered = True, led_status = False, led_user = True,
      transformer_config = \<lparr>seq_len = 256, vocab_size = 32000\<rparr>, group_size = 64, steps = 256,
      trace = loaded_trace @ [E_LedSet kStatus False, E_LedSet kUser True, E_vTaskSuspend,
        E_LedSet kStatus True, E_LedSet kUser False, E_printf Generating_tokens,
        E_generate kPrompt 256 64, E_generate_returned, E_printf Averaged_tokens_per_s,
        E_LedSet kStatus False, E_LedSet kUser True, E_vTaskSuspend]\<rparr>"
  by (simp add: eval_defs)

subsection \<open>LEDs and suspension at each program point\<close>

lemma led_inv_app_main_step:
  assumes "led_inv st" and "\<not> suspended st"
  shows "led_inv (app_main_step fl st)"
proof (cases "pc st = L97")
  case True
  show ?thesis
    by (rule LoadLlamaModel_cases[of fl st])
       (use assms True in \<open>simp_all add: app_main_step_L97 led_inv_def\<close>)
next
  case False
  with assms show ?thesis
    by (cases "pc st") (simp_all add: led_inv_def stmt_defs)
qed

lemma led_inv_sched_step: "led_inv st \<Longrightarrow> led_inv (sched_step fl a st)"
proof (cases a)
  case Run
  assume "led_inv st"
  with Run show ?thesis by (simp add: led_inv_app_main_step)
next
  case Edge
  assume "led_inv st"
  with Edge show ?thesis by (cases "pc st") (simp_all add: led_inv_def stmt_defs)
qed

lemma led_inv_run: "led_inv (run fl sched (boot ls lu))"
proof (rule run_invariant)
  show "led_inv (boot ls lu)" by (simp add: led_inv_def boot_def)
qed (rule led_inv_sched_step)

subsection \<open>The LED writes among the calls\<close>

lemma leds_after_Nil: "leds_after l [] = l"
  by (simp add: leds_after_def)

lemma leds_after_Cons: "leds_after l (e # es) = leds_after (led_write e l) es"
  by (simp add: leds_after_def)

lemma leds_after_append: "leds_after l (xs @ ys) = leds_after (leds_after l xs) ys"
  by (simp add: leds_after_def)

lemma indicators_lead_append:
  "indicators_lead l (xs @ ys) = (indicators_lead l xs \<and> indicators_lead (leds_after l xs) ys)"
  by (induction xs arbitrary: l) (simp_all add: leds_after_Nil leds_after_Cons)

lemmas trace_simps =
  trace_inv_def indicators_lead_append leds_after_append leds_after_Nil leds_after_Cons
  load_prefix_def

lemma trace_inv_app_main_step:
  assumes "trace_inv ls lu st" and "\<not> suspended st"
  shows "trace_inv ls lu (app_main_step fl st)"
proof (cases "pc st = L97")
  case True
  show ?thesis
    by (rule LoadLlamaModel_cases[of fl st])
       (use assms True in \<open>simp_all add: app_main_step_L97 led_inv_def trace_simps\<close>)
next
  case False
  with assms show ?thesis
    by (cases "pc st") (simp_all add: led_inv_def stmt_defs trace_simps)
qed

lemma trace_inv_sched_step: "trace_inv ls lu st \<Longrightarrow> trace_inv ls lu (sched_step fl a st)"
proof (cases a)
  case Run
  assume "trace_inv ls lu st"
  with Run show ?thesis by (simp add: trace_inv_app_main_step)
next
  case Edge
  assume "trace_inv ls lu st"
  with Edge show ?thesis by (cases "pc st") (simp_all add: trace_inv_def led_inv_def stmt_defs)
qed

lemma trace_inv_run: "trace_inv ls lu (run fl sched (boot ls lu))"
proof (rule run_invariant)
  show "trace_inv ls lu (boot ls lu)"
    by (simp add: trace_inv_def led_inv_def boot_def leds_after_Nil)
qed (rule trace_inv_sched_step)

subsection \<open>Engine construction\<close>

lemmas count_defs = BuildEngine_calls_def TeardownEngine_calls_def generate_calls_def

lemma load_inv_sched_step: "load_inv st \<Longrightarrow> load_inv (sched_step fl a st)"
proof (cases a)
  case Edge
  assume "load_inv st"
  with Edge show ?thesis by (simp add: load_inv_def stmt_defs)
next
  case Run
  assume inv: "load_inv st"
  show ?thesis
  proof (cases "suspended st")
    case True
    with Run inv show ?thesis by simp
  next
    case False
    show ?thesis
    proof (cases "pc st = L97")
      case True
      show ?thesis
        by (rule LoadLlamaModel_cases[of fl st])
           (use inv Run False True in
             \<open>simp_all add: app_main_step_L97 load_inv_def count_defs load_prefix_def\<close>)
    next
      case nl: False
      with inv Run False show ?thesis
        by (cases "pc st") (simp_all add: load_inv_def count_defs stmt_defs)
    qed
  qed
qed

lemma load_inv_run: "load_inv (run fl sched (boot ls lu))"
proof (rule run_invariant)
  show "load_inv (boot ls lu)" by (simp add: load_inv_def count_defs boot_def)
qed (rule load_inv_sched_step)

subsection \<open>The step budget along a run\<close>

lemma budget_inv_sched_step:
  assumes "model_file fl = Some (c, g)" and "budget_inv (seq_len c) st"
  shows "budget_inv (seq_len c) (sched_step fl a st)"
proof (cases a)
  case Edge
  with assms(2) show ?thesis by (simp add: budget_inv_def stmt_defs)
next
  case Run
  show ?thesis
  proof (cases "suspended st")
    case True
    with Run assms(2) show ?thesis by simp
  next
    case False
    show ?thesis
    proof (cases "pc st = L97")
      case True
      show ?thesis
        by (rule LoadLlamaModel_cases[of fl st])
           (use assms Run False True in
             \<open>simp_all add: app_main_step_L97 budget_inv_def load_prefix_def\<close>)
    next
      case nl: False
      with assms Run False show ?thesis
        by (cases "pc st") (simp_all add: budget_inv_def stmt_defs)
    qed
  qed
qed

lemma budget_inv_run:
  assumes "model_file fl = Some (c, g)"
  shows "budget_inv (seq_len c) (run fl sched (boot ls lu))"
proof (rule run_invariant)
  show "budget_inv (seq_len c) (boot ls lu)" by (simp add: budget_inv_def boot_def)
qed (rule budget_inv_sched_step[OF assms])

subsection \<open>Progress through the initialisation\<close>

lemma run_snoc: "run fl (sched @ [a]) st = sched_step fl a (run fl sched st)"
  by (simp add: run_append run.simps)

lemma runs_Nil: "runs [] = 0"
  by (simp add: runs_def)

lemma runs_snoc: "runs (sched @ [a]) = (if a = Run then Suc (runs sched) else runs sched)"
  by (simp add: runs_def)

lemma pc_button_isr: "pc (button_isr st) = pc st"
  by (simp add: stmt_defs)

lemma app_main_step_leaves_init:
  "pc st \<notin> {L89, L95, L96, L97} \<Longrightarrow> pc (app_main_step fl st) \<notin> {L89, L95, L96, L97}"
  by (cases "pc st") (simp_all add: stmt_defs)

lemma app_main_step_init:
  assumes "n < 4" and "pc st = failing_pc n" and "\<not> suspended st"
  shows "if Suc n < 4
         then pc (app_main_step fl st) = failing_pc (Suc n) \<and> \<not> suspended (app_main_step fl st)
         else pc (app_main_step fl st) \<notin> {L89, L95, L96, L97}"
proof -
  consider "n = 0" | "n = 1" | "n = 2" | "n = 3" using assms(1) by linarith
  then show ?thesis
  proof cases
    case 4
    with assms have at: "pc st = L97" by (simp add: failing_pc_def)
    show ?thesis
      by (rule LoadLlamaModel_cases[of fl st]) (use 4 at in \<open>simp_all add: app_main_step_L97\<close>)
  qed (use assms in \<open>simp_all add: failing_pc_def stmt_defs\<close>)
qed

lemma init_progress:
  "if runs sched < 4
   then pc (run fl sched (boot ls lu)) = failing_pc (runs sched)
        \<and> \<not> suspended (run fl sched (boot ls lu))
   else pc (run fl sched (boot ls lu)) \<notin> {L89, L95, L96, L97}"
proof (induction sched rule: rev_induct)
  case Nil
  show ?case by (simp add: run.simps runs_Nil failing_pc_def boot_def)
next
  case (snoc a sched)
  let ?st = "run fl sched (boot ls lu)"
  show ?case
  proof (cases a)
    case Edge
    show ?thesis
    proof (cases "runs sched < 4")
      case True
      with snoc have "pc ?st = failing_pc (runs sched)" "\<not> suspended ?st" by simp_all
      with True Edge show ?thesis by (simp add: run_snoc runs_snoc stmt_defs)
    next
      case False
      with snoc Edge show ?thesis by (simp add: run_snoc runs_snoc pc_button_isr)
    qed
  next
    case Run
    show ?thesis
    proof (cases "runs sched < 4")
      case True
      with snoc have at: "pc ?st = failing_pc (runs sched)" "\<not> suspended ?st" by simp_all
      have step: "run fl (sched @ [a]) (boot ls lu) = app_main_step fl ?st"
        using Run at(2) by (simp add: run_snoc)
      have count: "runs (sched @ [a]) = Suc (runs sched)"
        using Run by (simp add: runs_snoc)
      show ?thesis
        unfolding step count by (rule app_main_step_init[OF True at])
    next
      case False
      with snoc have "pc ?st \<notin> {L89, L95, L96, L97}" by simp
      then have "pc (sched_step fl a ?st) \<notin> {L89, L95, L96, L97}"
        using Run app_main_step_leaves_init[of ?st fl] by (cases "suspended ?st") simp_all
      moreover have "\<not> runs (sched @ [a]) < 4"
        using False Run by (simp add: runs_snoc)
      ultimately show ?thesis by (simp add: run_snoc)
    qed
  qed
qed

section \<open>Claims\<close>

text \<open>
  C2. In every run the engine is constructed at most once, and exactly once as soon as the
  task has run its first four statements (lines 89 to 97); no run tears the engine down,
  so no second construction, with or without a teardown, exists.
\<close>

theorem BuildEngine_exactly_once:
  "BuildEngine_calls (trace (run fl sched (boot ls lu))) = (if runs sched < 4 then 0 else 1)
   \<and> TeardownEngine_calls (trace (run fl sched (boot ls lu))) = 0"
proof (cases "runs sched < 4")
  case True
  with init_progress[of sched fl ls lu]
  have "pc (run fl sched (boot ls lu)) = failing_pc (runs sched)" by simp
  with True have "pc (run fl sched (boot ls lu)) \<in> {L89, L95, L96, L97}"
    by (simp add: failing_pc_def)
  with True load_inv_run[of fl sched ls lu] show ?thesis by (simp add: load_inv_def)
next
  case False
  with init_progress[of sched fl ls lu]
  have "pc (run fl sched (boot ls lu)) \<notin> {L89, L95, L96, L97}" by simp
  with False load_inv_run[of fl sched ls lu] show ?thesis by (simp add: load_inv_def)
qed

theorem BuildEngine_exactly_once_witness:
  "runs [Run, Run, Run, Run, Run, Run, Run, Edge, Run, Run, Run, Edge, Edge, Edge,
         Run, Run, Run, Run, Run, Run, Run, Run] = 18
   \<and> BuildEngine_calls (trace (run stories15M
        [Run, Run, Run, Run, Run, Run, Run, Edge, Run, Run, Run, Edge, Edge, Edge,
         Run, Run, Run, Run, Run, Run, Run, Run] (boot False False))) = 1
   \<and> TeardownEngine_calls (trace (run stories15M
        [Run, Run, Run, Run, Run, Run, Run, Edge, Run, Run, Run, Edge, Edge, Edge,
         Run, Run, Run, Run, Run, Run, Run, Run] (boot False False))) = 0"
proof -
  have n: "runs [Run, Run, Run, Run, Run, Run, Run, Edge, Run, Run, Run, Edge, Edge, Edge,
         Run, Run, Run, Run, Run, Run, Run, Run] = 18"
    by (simp add: runs_def)
  show ?thesis
    using BuildEngine_exactly_once[of stories15M
        "[Run, Run, Run, Run, Run, Run, Run, Edge, Run, Run, Run, Edge, Edge, Edge,
         Run, Run, Run, Run, Run, Run, Run, Run]" False False]
    unfolding n mash_during_generate
    by (simp add: count_defs loaded_trace_def)
qed

text \<open>
  C3. Lines 45 to 47 leave the step budget at the model's maximum M when the request r is
  0 or (as signed integers) greater than M, and at r otherwise, and a load that succeeds
  has applied exactly this to \<open>steps\<close>. For M = 256, requests 0 and 1000 both give 256.
\<close>

theorem ResolveStepBudget_clamp:
  "ResolveStepBudget r M = (if sint r = 0 \<or> sint M < sint r then M else r)
   \<and> (model_file fl = Some (c, g) \<and> tokenizer_file fl \<longrightarrow>
        (\<exists>st'. LoadLlamaModel fl st = Inr st' \<and>
           steps st' = (if sint (steps st) = 0 \<or> sint (seq_len c) < sint (steps st)
                        then seq_len c else steps st)))
   \<and> ResolveStepBudget 0 256 = 256
   \<and> ResolveStepBudget 1000 256 = 256"
proof -
  have clamp: "ResolveStepBudget r M = (if sint r = 0 \<or> sint M < sint r then M else r)" for r M
    by (simp add: ResolveStepBudget_def word_sless_alt signed_eq_0_iff)
  have load: "\<exists>st'. LoadLlamaModel fl st = Inr st' \<and>
           steps st' = (if sint (steps st) = 0 \<or> sint (seq_len c) < sint (steps st)
                        then seq_len c else steps st)"
    if "model_file fl = Some (c, g)" "tokenizer_file fl"
    unfolding LoadLlamaModel_ok[OF that] clamp[symmetric] by simp
  have a: "ResolveStepBudget 0 256 = 256"
    by (simp add: ResolveStepBudget_def)
  have b: "ResolveStepBudget 1000 256 = 256"
    by (simp add: ResolveStepBudget_def word_sless_alt)
  from clamp load a b show ?thesis by blast
qed

theorem ResolveStepBudget_clamp_witness:
  "model_file stories15M = Some (\<lparr>seq_len = 256, vocab_size = 32000\<rparr>, 64)
   \<and> tokenizer_file stories15M
   \<and> (\<exists>st'. LoadLlamaModel stories15M (boot False False) = Inr st' \<and> steps st' = 256)
   \<and> ResolveStepBudget 100 256 = 100"
proof -
  have f: "model_file stories15M = Some (\<lparr>seq_len = 256, vocab_size = 32000\<rparr>, 64)"
    "tokenizer_file stories15M"
    by (simp_all add: stories15M_def)
  have s: "steps (boot False False) = 256"
    by (simp add: boot_def kSteps_def)
  show ?thesis
    using ResolveStepBudget_clamp[of 100 256 stories15M "\<lparr>seq_len = 256, vocab_size = 32000\<rparr>" 64
          "boot False False"] f
    unfolding s by simp
qed

text \<open>
  C4 as stated fails for a negative request: -1 is neither 0 nor greater than 256, so
  lines 45 to 47 keep it.
\<close>

theorem ResolveStepBudget_negative_counterexample:
  "ResolveStepBudget (- 1) 256 = - 1 \<and> sint (ResolveStepBudget (- 1) 256) = - 1
   \<and> \<not> (1 \<le>s ResolveStepBudget (- 1) 256)"
  by (simp add: ResolveStepBudget_def word_sless_alt word_sle_eq)

text \<open>
  C4, as amended. For a request r that is not negative and a model maximum M of at least 1,
  the resolved budget lies between 1 and M.
\<close>

theorem ResolveStepBudget_in_range:
  assumes "0 \<le>s r" and "1 \<le>s M"
  shows "1 \<le>s ResolveStepBudget r M \<and> ResolveStepBudget r M \<le>s M"
proof (cases "r = 0 \<or> M <s r")
  case True
  with assms(2) show ?thesis by (simp add: ResolveStepBudget_def)
next
  case False
  then have "r \<noteq> 0" and le: "sint r \<le> sint M"
    by (simp_all add: word_sless_alt)
  then have "sint r \<noteq> 0" by (simp add: signed_eq_0_iff)
  moreover from assms(1) have "0 \<le> sint r" by (simp add: word_sle_eq)
  ultimately have "1 \<le> sint r" by linarith
  with le False show ?thesis by (simp add: ResolveStepBudget_def word_sle_eq)
qed

theorem ResolveStepBudget_in_range_witness:
  "(0 :: int32) \<le>s 1000 \<and> (1 :: int32) \<le>s 256
   \<and> 1 \<le>s ResolveStepBudget 1000 256 \<and> ResolveStepBudget 1000 256 \<le>s 256
   \<and> ResolveStepBudget 1000 256 = 256"
proof -
  have h: "(0 :: int32) \<le>s 1000" "(1 :: int32) \<le>s 256"
    by (simp_all add: word_sle_eq)
  have v: "ResolveStepBudget 1000 256 = 256"
    by (simp add: ResolveStepBudget_def word_sless_alt)
  from ResolveStepBudget_in_range[OF h] h v show ?thesis by simp
qed

text \<open>
  C5 as stated fails: nothing between the load and a call of \<open>generate\<close> resolves the
  budget again. With the model loaded (maximum 256) and the task about to call
  \<open>TellStory\<close>, a budget changed to 1000 is passed to \<open>generate\<close> as 1000, where
  resolving it would give 256.
\<close>

theorem budget_not_reclamped_counterexample:
  "pc (run stories15M [Run, Run, Run, Run, Run, Run, Run, Edge, Run, Run] (boot False False)) = L109
   \<and> seq_len (transformer_config
        (run stories15M [Run, Run, Run, Run, Run, Run, Run, Edge, Run, Run] (boot False False))) = 256
   \<and> last (trace (sched_step stories15M Run
        ((run stories15M [Run, Run, Run, Run, Run, Run, Run, Edge, Run, Run] (boot False False))
           \<lparr>steps := 1000\<rparr>))) = E_generate kPrompt 1000 64
   \<and> ResolveStepBudget 1000 256 = 256"
  unfolding boot_to_L109
  by (simp add: stmt_defs ResolveStepBudget_def word_sless_alt)

text \<open>
  C5, as amended. The step budget is resolved once, by \<open>LoadLlamaModel\<close>; \<open>TellStory\<close>
  passes the stored \<open>steps\<close> to \<open>generate\<close> as it is and leaves it unchanged. In every
  run, every generation cycle therefore passes the configured budget \<open>kSteps\<close> as
  resolved at load against the model's maximum sequence length.
\<close>

theorem generate_budget_fixed_at_load:
  "(model_file fl = Some (c, g) \<and> E_generate p n g' \<in> set (trace (run fl sched (boot ls lu)))
      \<longrightarrow> n = ResolveStepBudget kSteps (seq_len c))
   \<and> trace (TellStory q st) =
       trace st @ [E_printf Generating_tokens, E_generate q (steps st) (group_size st),
                   E_generate_returned, E_printf Averaged_tokens_per_s]
   \<and> steps (TellStory q st) = steps st"
proof -
  have "n = ResolveStepBudget kSteps (seq_len c)"
    if f: "model_file fl = Some (c, g)"
      and e: "E_generate p n g' \<in> set (trace (run fl sched (boot ls lu)))"
  proof -
    from budget_inv_run[OF f, of sched ls lu]
    have "\<forall>e \<in> set (trace (run fl sched (boot ls lu))).
            budget_passed e \<in> {None, Some (ResolveStepBudget kSteps (seq_len c))}"
      by (simp add: budget_inv_def list_all_iff)
    with e have "budget_passed (E_generate p n g') \<in> {None, Some (ResolveStepBudget kSteps (seq_len c))}"
      by blast
    then show ?thesis by simp
  qed
  moreover have "trace (TellStory q st) =
       trace st @ [E_printf Generating_tokens, E_generate q (steps st) (group_size st),
                   E_generate_returned, E_printf Averaged_tokens_per_s]"
    by (simp add: TellStory_def stmt_defs)
  moreover have "steps (TellStory q st) = steps st"
    by (simp add: TellStory_def stmt_defs)
  ultimately show ?thesis by blast
qed

theorem generate_budget_fixed_at_load_witness:
  "model_file stories15M = Some (\<lparr>seq_len = 256, vocab_size = 32000\<rparr>, 64)
   \<and> E_generate kPrompt 256 64 \<in> set (trace (run stories15M
        [Run, Run, Run, Run, Run, Run, Run, Edge, Run, Run, Run, Edge, Edge, Edge,
         Run, Run, Run, Run, Run, Run, Run, Run] (boot False False)))
   \<and> (256 :: int32) = ResolveStepBudget kSteps 256"
proof -
  have f: "model_file stories15M = Some (\<lparr>seq_len = 256, vocab_size = 32000\<rparr>, 64)"
    by (simp add: stories15M_def)
  have e: "E_generate kPrompt 256 64 \<in> set (trace (run stories15M
        [Run, Run, Run, Run, Run, Run, Run, Edge, Run, Run, Run, Edge, Edge, Edge,
         Run, Run, Run, Run, Run, Run, Run, Run] (boot False False)))"
    unfolding mash_during_generate by simp
  from generate_budget_fixed_at_load[of stories15M "\<lparr>seq_len = 256, vocab_size = 32000\<rparr>" 64
      kPrompt 256 64
      "[Run, Run, Run, Run, Run, Run, Run, Edge, Run, Run, Run, Edge, Edge, Edge,
         Run, Run, Run, Run, Run, Run, Run, Run]" False False] f e
  have "(256 :: int32) = ResolveStepBudget kSteps (seq_len \<lparr>seq_len = 256, vocab_size = 32000\<rparr>)"
    by blast
  with f e show ?thesis by simp
qed

text \<open>
  C6. In every run, whenever the task makes a call that belongs to a phase's main action
  (any call of \<open>LoadLlamaModel\<close>, the suspension at the wait point, any call of
  \<open>TellStory\<close>), the LED writes made before that call have left the two LEDs in that
  phase's configuration: status on and user off before every engine call, status off and
  user on before the task parks.
\<close>

theorem indicator_writes_precede_main_action:
  assumes "trace (run fl sched (boot ls lu)) = pre @ e # post"
    and "main_action e = Some p"
  shows "leds_after (ls, lu) pre = indicator_of p"
proof -
  have "indicators_lead (ls, lu) (pre @ e # post)"
    using trace_inv_run[of ls lu fl sched] assms(1) by (simp add: trace_inv_def)
  then have "indicators_lead (leds_after (ls, lu) pre) (e # post)"
    by (simp add: indicators_lead_append)
  with assms(2) show ?thesis by simp
qed

theorem indicator_writes_precede_main_action_witness:
  "trace (run stories15M
        [Run, Run, Run, Run, Run, Run, Run, Edge, Run, Run, Run, Edge, Edge, Edge,
         Run, Run, Run, Run, Run, Run, Run, Run] (boot False True))
     = (loaded_trace @ [E_LedSet kStatus False, E_LedSet kUser True, E_vTaskSuspend,
          E_LedSet kStatus True, E_LedSet kUser False, E_printf Generating_tokens])
       @ E_generate kPrompt 256 64
       # [E_generate_returned, E_printf Averaged_tokens_per_s,
          E_LedSet kStatus False, E_LedSet kUser True, E_vTaskSuspend]
   \<and> main_action (E_generate kPrompt 256 64) = Some Generating
   \<and> leds_after (False, True)
        (loaded_trace @ [E_LedSet kStatus False, E_LedSet kUser True, E_vTaskSuspend,
          E_LedSet kStatus True, E_LedSet kUser False, E_printf Generating_tokens])
       = (True, False)"
proof -
  have t: "trace (run stories15M
        [Run, Run, Run, Run, Run, Run, Run, Edge, Run, Run, Run, Edge, Edge, Edge,
         Run, Run, Run, Run, Run, Run, Run, Run] (boot False True))
     = (loaded_trace @ [E_LedSet kStatus False, E_LedSet kUser True, E_vTaskSuspend,
          E_LedSet kStatus True, E_LedSet kUser False, E_printf Generating_tokens])
       @ E_generate kPrompt 256 64
       # [E_generate_returned, E_printf Averaged_tokens_per_s,
          E_LedSet kStatus False, E_LedSet kUser True, E_vTaskSuspend]"
    by (simp add: eval_defs kPrompt_def)
  have m: "main_action (E_generate kPrompt 256 64) = Some Generating"
    by simp
  from indicator_writes_precede_main_action[OF t m] t m show ?thesis by simp
qed

text \<open>
  C10. In every reachable state in which the current phase's two LED writes are done
  (before and inside the load, at the wait point and while parked there, at and inside the
  call of \<open>TellStory\<close>), exactly one LED is lit and it is the one of the phase: the
  status LED during Initializing and Generating, the user LED during Idle.
\<close>

theorem one_led_identifies_phase:
  "indicators_settled (run fl sched (boot ls lu)) \<longrightarrow>
     (led_status (run fl sched (boot ls lu)), led_user (run fl sched (boot ls lu)))
       = indicator_of (phase (run fl sched (boot ls lu)))
     \<and> led_status (run fl sched (boot ls lu)) \<noteq> led_user (run fl sched (boot ls lu))"
  using led_inv_run[of fl sched ls lu]
  by (cases "pc (run fl sched (boot ls lu))")
     (simp_all add: led_inv_def indicators_settled_def phase_def)

theorem one_led_identifies_phase_witness:
  "indicators_settled (run stories15M [Run, Run, Run, Run, Run, Run, Run] (boot False False))
   \<and> phase (run stories15M [Run, Run, Run, Run, Run, Run, Run] (boot False False)) = Idle
   \<and> (led_status (run stories15M [Run, Run, Run, Run, Run, Run, Run] (boot False False)),
       led_user (run stories15M [Run, Run, Run, Run, Run, Run, Run] (boot False False)))
      = (False, True)"
proof -
  have s: "indicators_settled (run stories15M [Run, Run, Run, Run, Run, Run, Run] (boot False False))"
    unfolding boot_to_Idle by (simp add: indicators_settled_def)
  have p: "phase (run stories15M [Run, Run, Run, Run, Run, Run, Run] (boot False False)) = Idle"
    unfolding boot_to_Idle by (simp add: phase_def)
  from one_led_identifies_phase[of stories15M "[Run, Run, Run, Run, Run, Run, Run]" False False] s p
  show ?thesis by simp
qed

subsection \<open>A failing load\<close>

lemma halt_inv_sched_step:
  assumes "model_file fl = None \<or> \<not> tokenizer_file fl" and "halt_inv st"
  shows "halt_inv (sched_step fl a st)"
proof (cases a)
  case Edge
  with assms(2) show ?thesis by (simp add: halt_inv_def stmt_defs)
next
  case Run
  show ?thesis
  proof (cases "suspended st")
    case True
    with Run assms(2) show ?thesis by simp
  next
    case False
    show ?thesis
    proof (cases "pc st = L97")
      case True
      show ?thesis
        by (rule LoadLlamaModel_cases[of fl st])
           (use assms Run False True in
             \<open>simp_all add: app_main_step_L97 halt_inv_def load_prefix_def\<close>)
    next
      case nl: False
      with assms Run False show ?thesis
        by (cases "pc st") (simp_all add: halt_inv_def stmt_defs)
    qed
  qed
qed

lemma halt_inv_run:
  assumes "model_file fl = None \<or> \<not> tokenizer_file fl"
  shows "halt_inv (run fl sched (boot ls lu))"
proof (rule run_invariant)
  show "halt_inv (boot ls lu)" by (simp add: halt_inv_def boot_def)
qed (rule halt_inv_sched_step[OF assms])

lemma Halted_absorbing:
  assumes "pc st = Halted" and "\<not> suspended st"
  shows "run fl later st = st"
proof (induction later)
  case Nil
  show ?case by (simp add: run.simps)
next
  case (Cons a later)
  have "sched_step fl a st = st"
    using assms by (cases a) (simp_all add: stmt_defs)
  with Cons show ?case by (simp add: run.simps)
qed

lemma tokenizer_missing_run:
  "run (stories15M\<lparr>tokenizer_file := False\<rparr>) [Run, Run, Edge, Run, Run, Edge, Run]
     (boot False True) =
     \<lparr>pc = Halted, suspended = False, isr_registered = True, led_status = True, led_user = False,
      transformer_config = \<lparr>seq_len = 256, vocab_size = 32000\<rparr>, group_size = 64, steps = 256,
      trace = [E_GpioConfigureInterrupt kButtonDebounceUs, E_LedSet kStatus True,
        E_LedSet kUser False, E_printf (Loading_Llama_model kLlamaModelPath), E_TimerMillis,
        E_new llama_model_buffer, E_build_transformer kLlamaModelPath,
        E_new llama_tokenizer_buffer, E_build_tokenizer kLlamaTokenizerPath 32000,
        E_printf (Fatal_diagnostic kLlamaTokenizerPath)]\<rparr>"
  by (simp add: eval_defs)

text \<open>
  C7. When the model file or the tokenizer file is missing or malformed, the controller is
  in Initializing in every state of every run; once the task has run its first four
  statements it has printed the fatal diagnostic and halted, the status LED is on and the
  user LED off, and nothing that happens afterwards (edges, processor time) changes the state.
\<close>

theorem fatal_load_failure_halts:
  assumes "model_file fl = None \<or> \<not> tokenizer_file fl"
  shows "phase (run fl sched (boot ls lu)) = Initializing
     \<and> (4 \<le> runs sched \<longrightarrow>
           pc (run fl sched (boot ls lu)) = Halted
         \<and> list_ex is_fatal (trace (run fl sched (boot ls lu)))
         \<and> led_status (run fl sched (boot ls lu))
         \<and> \<not> led_user (run fl sched (boot ls lu))
         \<and> run fl later (run fl sched (boot ls lu)) = run fl sched (boot ls lu))"
proof -
  let ?st = "run fl sched (boot ls lu)"
  have h: "halt_inv ?st" by (rule halt_inv_run[OF assms])
  then have ph: "phase ?st = Initializing"
    by (simp add: halt_inv_def phase_def)
  have "pc ?st = Halted \<and> list_ex is_fatal (trace ?st) \<and> led_status ?st \<and> \<not> led_user ?st
        \<and> run fl later ?st = ?st" if "4 \<le> runs sched"
  proof -
    from that init_progress[of sched fl ls lu] have "pc ?st \<notin> {L89, L95, L96, L97}"
      by simp
    with h have at: "pc ?st = Halted" and fatal: "list_ex is_fatal (trace ?st)"
      by (simp_all add: halt_inv_def)
    from led_inv_run[of fl sched ls lu] at
    have leds: "\<not> suspended ?st" "led_status ?st" "\<not> led_user ?st"
      by (simp_all add: led_inv_def)
    from Halted_absorbing[OF at leds(1)] at fatal leds show ?thesis by simp
  qed
  with ph show ?thesis by blast
qed

theorem fatal_load_failure_halts_witness:
  "\<not> tokenizer_file (stories15M\<lparr>tokenizer_file := False\<rparr>)
   \<and> 4 \<le> runs [Run, Run, Edge, Run, Run, Edge, Run]
   \<and> phase (run (stories15M\<lparr>tokenizer_file := False\<rparr>) [Run, Run, Edge, Run, Run, Edge, Run]
        (boot False True)) = Initializing
   \<and> pc (run (stories15M\<lparr>tokenizer_file := False\<rparr>) [Run, Run, Edge, Run, Run, Edge, Run]
        (boot False True)) = Halted
   \<and> led_status (run (stories15M\<lparr>tokenizer_file := False\<rparr>) [Run, Run, Edge, Run, Run, Edge, Run]
        (boot False True))
   \<and> last (trace (run (stories15M\<lparr>tokenizer_file := False\<rparr>)
        [Run, Run, Edge, Run, Run, Edge, Run] (boot False True)))
      = E_printf (Fatal_diagnostic kLlamaTokenizerPath)
   \<and> run (stories15M\<lparr>tokenizer_file := False\<rparr>) [Edge, Run, Run, Edge]
        (run (stories15M\<lparr>tokenizer_file := False\<rparr>) [Run, Run, Edge, Run, Run, Edge, Run]
           (boot False True))
     = run (stories15M\<lparr>tokenizer_file := False\<rparr>) [Run, Run, Edge, Run, Run, Edge, Run]
        (boot False True)"
proof -
  have bad: "model_file (stories15M\<lparr>tokenizer_file := False\<rparr>) = None
             \<or> \<not> tokenizer_file (stories15M\<lparr>tokenizer_file := False\<rparr>)"
    by simp
  have n: "4 \<le> runs [Run, Run, Edge, Run, Run, Edge, Run]"
    by (simp add: runs_def)
  have t: "\<not> tokenizer_file (stories15M\<lparr>tokenizer_file := False\<rparr>)"
    by simp
  have l: "last (trace (run (stories15M\<lparr>tokenizer_file := False\<rparr>)
        [Run, Run, Edge, Run, Run, Edge, Run] (boot False True)))
      = E_printf (Fatal_diagnostic kLlamaTokenizerPath)"
    unfolding tokenizer_missing_run by simp
  from fatal_load_failure_halts[OF bad, of "[Run, Run, Edge, Run, Run, Edge, Run]" False True
         "[Edge, Run, Run, Edge]"] n t l
  show ?thesis by blast
qed

subsection \<open>Edges while the task is not suspended\<close>

lemma Edge_not_suspended: "\<not> suspended st \<Longrightarrow> sched_step fl Edge st = st"
  by (simp add: stmt_defs)

lemma Generating_not_suspended: "phase st = Generating \<Longrightarrow> \<not> suspended st"
  by (simp add: phase_def split: if_splits)

lemma Generating_pc: "phase st = Generating \<Longrightarrow> pc st \<in> {L107, L108, L109, L79}"
  by (cases "pc st") (simp_all add: phase_def)

lemma edges_in_Generating_erase:
  "edges_in_Generating fl sched st \<Longrightarrow>
   run fl sched st = run fl (filter (\<lambda>a. a = Run) sched) st"
proof (induction sched arbitrary: st)
  case Nil
  show ?case by simp
next
  case (Cons a sched)
  show ?case
  proof (cases a)
    case Run
    with Cons.prems have "edges_in_Generating fl sched (sched_step fl Run st)" by simp
    from Cons.IH[OF this] Run show ?thesis by (simp add: run.simps del: sched_step.simps)
  next
    case Edge
    with Cons.prems have "phase st = Generating" by simp
    then have same: "sched_step fl Edge st = st"
      by (rule Edge_not_suspended[OF Generating_not_suspended])
    with Cons.prems Edge have "edges_in_Generating fl sched st" by simp
    from Cons.IH[OF this] Edge same show ?thesis by (simp add: run.simps)
  qed
qed

lemma generate_calls_append:
  "generate_calls (t @ u) = generate_calls t + generate_calls u"
  by (simp add: generate_calls_def)

lemma generate_calls_simps:
  "generate_calls [] = 0"
  "generate_calls (e # t) = (if is_generate e then Suc (generate_calls t) else generate_calls t)"
  by (simp_all add: generate_calls_def)

lemma cycle_inv_Run: "cycle_inv n st \<Longrightarrow> cycle_inv n (sched_step fl Run st)"
  by (cases "pc st")
     (simp_all add: cycle_inv_def generate_calls_append generate_calls_simps stmt_defs
        split: if_splits)

lemma cycle_inv_Runs:
  "cycle_inv n st \<Longrightarrow> cycle_inv n (run fl (filter (\<lambda>a. a = Run) sched) st)"
proof (induction sched arbitrary: st)
  case Nil
  then show ?case by (simp add: run.simps)
next
  case (Cons a sched)
  show ?case
  proof (cases a)
    case Run
    from Cons.IH[OF cycle_inv_Run[OF Cons.prems, of fl]] Run show ?thesis
      by (simp add: run.simps del: sched_step.simps)
  next
    case Edge
    from Cons.IH[OF Cons.prems] Edge show ?thesis by simp
  qed
qed

lemma cycle_inv_bound: "cycle_inv n st \<Longrightarrow> generate_calls (trace st) \<le> n"
  by (cases "pc st") (simp_all add: cycle_inv_def split: if_splits)

lemma cycle_inv_Generating:
  assumes "phase st = Generating"
  shows "cycle_inv (generate_calls (trace st) + (if pc st = L79 then 0 else 1)) st"
proof -
  have ns: "\<not> suspended st" by (rule Generating_not_suspended[OF assms])
  have "pc st \<in> {L107, L108, L109, L79}" by (rule Generating_pc[OF assms])
  then consider "pc st = L107" | "pc st = L108" | "pc st = L109" | "pc st = L79" by blast
  then show ?thesis by cases (use ns in \<open>simp_all add: cycle_inv_def\<close>)
qed

text \<open>
  C1 as stated fails. The task loads the model and parks (seven statements), an edge wakes
  it, and three statements later \<open>generate\<close> is under way. Three more edges arrive
  now. Given the processor for eight more statements, the task finishes the cycle and
  parks again: \<open>generate\<close> has been called once in all, and no further cycle runs.
\<close>

theorem mashed_button_counterexample:
  "phase (run stories15M [Run, Run, Run, Run, Run, Run, Run, Edge, Run, Run, Run]
            (boot False False)) = Generating
   \<and> generate_calls (trace (run stories15M
        [Run, Run, Run, Run, Run, Run, Run, Edge, Run, Run, Run] (boot False False))) = 1
   \<and> generate_calls (trace (run stories15M
        [Run, Run, Run, Run, Run, Run, Run, Edge, Run, Run, Run, Edge, Edge, Edge,
         Run, Run, Run, Run, Run, Run, Run, Run] (boot False False))) = 1
   \<and> suspended (run stories15M
        [Run, Run, Run, Run, Run, Run, Run, Edge, Run, Run, Run, Edge, Edge, Edge,
         Run, Run, Run, Run, Run, Run, Run, Run] (boot False False))"
  unfolding boot_to_L79 mash_during_generate
  by (simp add: phase_def generate_calls_def loaded_trace_def)

text \<open>
  C1, as amended. Edges delivered while the controller is in Generating are discarded: the
  run is the one that the same schedule without these edges gives, and \<open>generate\<close> is
  called for the current cycle only (no more at all if its call is already under way). No
  subsequent Generating cycle runs, whatever the number of edges; the task parks at line
  103 until an edge arrives after that.
\<close>

theorem edges_in_Generating_discarded:
  assumes "phase st = Generating" and "edges_in_Generating fl sched st"
  shows "run fl sched st = run fl (filter (\<lambda>a. a = Run) sched) st
     \<and> generate_calls (trace (run fl sched st))
         \<le> generate_calls (trace st) + (if pc st = L79 then 0 else 1)"
proof -
  have same: "run fl sched st = run fl (filter (\<lambda>a. a = Run) sched) st"
    by (rule edges_in_Generating_erase[OF assms(2)])
  have "cycle_inv (generate_calls (trace st) + (if pc st = L79 then 0 else 1))
          (run fl (filter (\<lambda>a. a = Run) sched) st)"
    by (rule cycle_inv_Runs[OF cycle_inv_Generating[OF assms(1)]])
  then have "generate_calls (trace (run fl (filter (\<lambda>a. a = Run) sched) st))
         \<le> generate_calls (trace st) + (if pc st = L79 then 0 else 1)"
    by (rule cycle_inv_bound)
  with same show ?thesis by simp
qed

theorem edges_in_Generating_discarded_witness:
  "phase (run stories15M [Run, Run, Run, Run, Run, Run, Run, Edge, Run, Run, Run]
            (boot False False)) = Generating
   \<and> edges_in_Generating stories15M [Edge, Edge, Edge, Run, Run, Run, Run, Run]
        (run stories15M [Run, Run, Run, Run, Run, Run, Run, Edge, Run, Run, Run] (boot False False))
   \<and> run stories15M [Edge, Edge, Edge, Run, Run, Run, Run, Run]
        (run stories15M [Run, Run, Run, Run, Run, Run, Run, Edge, Run, Run, Run] (boot False False))
      = run stories15M (filter (\<lambda>a. a = Run) [Edge, Edge, Edge, Run, Run, Run, Run, Run])
        (run stories15M [Run, Run, Run, Run, Run, Run, Run, Edge, Run, Run, Run] (boot False False))
   \<and> generate_calls (trace (run stories15M [Edge, Edge, Edge, Run, Run, Run, Run, Run]
        (run stories15M [Run, Run, Run, Run, Run, Run, Run, Edge, Run, Run, Run] (boot False False))))
      \<le> 1"
proof -
  have p: "phase (run stories15M [Run, Run, Run, Run, Run, Run, Run, Edge, Run, Run, Run]
            (boot False False)) = Generating"
    unfolding boot_to_L79 by (simp add: phase_def)
  have e: "edges_in_Generating stories15M [Edge, Edge, Edge, Run, Run, Run, Run, Run]
        (run stories15M [Run, Run, Run, Run, Run, Run, Run, Edge, Run, Run, Run] (boot False False))"
    unfolding boot_to_L79 by (simp add: phase_def stmt_defs)
  have n: "generate_calls (trace (run stories15M
        [Run, Run, Run, Run, Run, Run, Run, Edge, Run, Run, Run] (boot False False)))
      + (if pc (run stories15M [Run, Run, Run, Run, Run, Run, Run, Edge, Run, Run, Run]
                 (boot False False)) = L79 then 0 else 1) = 1"
    unfolding boot_to_L79 by (simp add: generate_calls_def loaded_trace_def)
  from edges_in_Generating_discarded[OF p e] p e show ?thesis
    unfolding n by blast
qed

subsection \<open>The wait point\<close>

lemma Edges_not_suspended:
  "\<not> suspended st \<Longrightarrow> run fl (replicate n Edge @ sched) st = run fl sched st"
proof (induction n)
  case 0
  show ?case by simp
next
  case (Suc n)
  from Suc.prems have "sched_step fl Edge st = st" by (rule Edge_not_suspended)
  with Suc show ?case by (simp add: run.simps del: sched_step.simps)
qed

lemma Runs_suspended: "suspended st \<Longrightarrow> run fl (replicate k Run) st = st"
  by (induction k) (simp_all add: run.simps)

lemma Run_at_L103:
  "pc st = L103 \<Longrightarrow> \<not> suspended st \<Longrightarrow> sched_step fl Run st = goto L107 (vTaskSuspend st)"
  by (simp add: app_main_step_def)

lemma suspended_after_vTaskSuspend: "suspended (goto L107 (vTaskSuspend st))"
  by (simp add: goto_def vTaskSuspend_def)

text \<open>
  C9. A call of the interrupt callback while the task is not suspended leaves the whole
  state as it was, so any number of edges during Initializing or Generating changes
  nothing in the rest of the run. At the wait point (line 103) the task then suspends
  whatever came before, and stays suspended for any amount of processor time; an edge
  that arrives while it is suspended (the interrupt being registered) makes it ready again.
\<close>

theorem wake_while_running_is_discarded:
  "(\<not> suspended st \<longrightarrow>
      sched_step fl Edge st = st \<and> run fl (replicate n Edge @ sched) st = run fl sched st)
   \<and> (pc st = L103 \<and> \<not> suspended st \<longrightarrow>
        run fl (Run # replicate k Run) st = goto L107 (vTaskSuspend st)
      \<and> suspended (run fl (Run # replicate k Run) st))
   \<and> (suspended st \<and> isr_registered st \<longrightarrow> \<not> suspended (sched_step fl Edge st))"
proof -
  have a: "sched_step fl Edge st = st \<and> run fl (replicate n Edge @ sched) st = run fl sched st"
    if "\<not> suspended st"
    using that by (simp add: Edge_not_suspended Edges_not_suspended del: sched_step.simps)
  have b: "run fl (Run # replicate k Run) st = goto L107 (vTaskSuspend st)
         \<and> suspended (run fl (Run # replicate k Run) st)"
    if at: "pc st = L103" and ns: "\<not> suspended st"
  proof -
    have "run fl (Run # replicate k Run) st = run fl (replicate k Run) (goto L107 (vTaskSuspend st))"
      using Run_at_L103[OF at ns, of fl] by (simp add: run.simps del: sched_step.simps)
    also have "\<dots> = goto L107 (vTaskSuspend st)"
      by (rule Runs_suspended[OF suspended_after_vTaskSuspend])
    finally show ?thesis using suspended_after_vTaskSuspend[of st] by simp
  qed
  have c: "\<not> suspended (sched_step fl Edge st)" if "suspended st" "isr_registered st"
    using that by (simp add: stmt_defs)
  from a b c show ?thesis by blast
qed

theorem wake_while_running_is_discarded_witness:
  "\<not> suspended (run stories15M [Run, Run, Run, Run, Run, Run, Run, Edge, Run, Run, Run]
        (boot False False))
   \<and> run stories15M (replicate 3 Edge @ [Run, Run, Run, Run])
        (run stories15M [Run, Run, Run, Run, Run, Run, Run, Edge, Run, Run, Run] (boot False False))
     = run stories15M [Run, Run, Run, Run]
        (run stories15M [Run, Run, Run, Run, Run, Run, Run, Edge, Run, Run, Run] (boot False False))
   \<and> pc (run stories15M [Run, Run, Run, Run, Run, Run] (boot False False)) = L103
   \<and> \<not> suspended (run stories15M [Run, Run, Run, Run, Run, Run] (boot False False))
   \<and> suspended (run stories15M (Run # replicate 5 Run)
        (run stories15M [Run, Run, Run, Run, Run, Run] (boot False False)))
   \<and> suspended (run stories15M [Run, Run, Run, Run, Run, Run, Run] (boot False False))
   \<and> isr_registered (run stories15M [Run, Run, Run, Run, Run, Run, Run] (boot False False))
   \<and> \<not> suspended (sched_step stories15M Edge
        (run stories15M [Run, Run, Run, Run, Run, Run, Run] (boot False False)))"
proof -
  have g: "\<not> suspended (run stories15M [Run, Run, Run, Run, Run, Run, Run, Edge, Run, Run, Run]
        (boot False False))"
    unfolding boot_to_L79 by simp
  have w: "pc (run stories15M [Run, Run, Run, Run, Run, Run] (boot False False)) = L103"
    "\<not> suspended (run stories15M [Run, Run, Run, Run, Run, Run] (boot False False))"
    unfolding boot_to_L103 by simp_all
  have i: "suspended (run stories15M [Run, Run, Run, Run, Run, Run, Run] (boot False False))"
    "isr_registered (run stories15M [Run, Run, Run, Run, Run, Run, Run] (boot False False))"
    unfolding boot_to_Idle by simp_all
  from wake_while_running_is_discarded[of
         "run stories15M [Run, Run, Run, Run, Run, Run, Run, Edge, Run, Run, Run] (boot False False)"
         stories15M 3 "[Run, Run, Run, Run]"] g
  have 1: "run stories15M (replicate 3 Edge @ [Run, Run, Run, Run])
        (run stories15M [Run, Run, Run, Run, Run, Run, Run, Edge, Run, Run, Run] (boot False False))
     = run stories15M [Run, Run, Run, Run]
        (run stories15M [Run, Run, Run, Run, Run, Run, Run, Edge, Run, Run, Run] (boot False False))"
    by blast
  from wake_while_running_is_discarded[of
         "run stories15M [Run, Run, Run, Run, Run, Run] (boot False False)" stories15M _ _ 5] w
  have 2: "suspended (run stories15M (Run # replicate 5 Run)
        (run stories15M [Run, Run, Run, Run, Run, Run] (boot False False)))"
    by blast
  from wake_while_running_is_discarded[of
         "run stories15M [Run, Run, Run, Run, Run, Run, Run] (boot False False)" stories15M] i
  have 3: "\<not> suspended (sched_step stories15M Edge
        (run stories15M [Run, Run, Run, Run, Run, Run, Run] (boot False False)))"
    by blast
  from g w i 1 2 3 show ?thesis by blast
qed

subsection \<open>Order of acquisition and release\<close>

lemma calls_since_append: "trace st' = trace st @ xs \<Longrightarrow> calls_since st st' = xs"
  by (simp add: calls_since_def)

lemma UnloadLlamaModel_trace:
  "trace (UnloadLlamaModel s) =
     trace s @ [E_printf Unloading_Llama_model, E_free_sampler, E_free_tokenizer,
                E_free_transformer, E_delete llama_tokenizer_buffer, E_delete llama_model_buffer]"
  by (simp add: UnloadLlamaModel_def emit_def)

text \<open>
  C8. A load that returns has built the weights, then the tokenizer, then the sampler;
  \<open>UnloadLlamaModel\<close> frees the sampler, then the tokenizer, then the weights, which is
  the reverse. The two byte buffers, allocated model first, are deleted tokenizer first,
  after the three structures are freed.
\<close>

theorem unload_reverses_load:
  assumes "LoadLlamaModel fl st = Inr st'"
  shows "List.map_filter built (calls_since st st') = [Weights, TokenizerTable, SamplerState]
     \<and> List.map_filter freed (calls_since s (UnloadLlamaModel s))
         = rev (List.map_filter built (calls_since st st'))
     \<and> List.map_filter freed (calls_since s (UnloadLlamaModel s))
         = [SamplerState, TokenizerTable, Weights]
     \<and> List.map_filter deleted (calls_since s (UnloadLlamaModel s))
         = rev (List.map_filter allocated (calls_since st st'))"
proof -
  have u: "calls_since s (UnloadLlamaModel s) =
     [E_printf Unloading_Llama_model, E_free_sampler, E_free_tokenizer,
      E_free_transformer, E_delete llama_tokenizer_buffer, E_delete llama_model_buffer]"
    by (rule calls_since_append[OF UnloadLlamaModel_trace])
  show ?thesis
  proof (rule LoadLlamaModel_cases[of fl st])
    assume "LoadLlamaModel fl st =
      Inl (st\<lparr>trace := trace st @ load_prefix @ [E_printf (Fatal_diagnostic kLlamaModelPath)]\<rparr>)"
    with assms show ?thesis by simp
  next
    fix c g
    assume "LoadLlamaModel fl st =
         Inl (st\<lparr>transformer_config := c, group_size := g,
             steps := ResolveStepBudget (steps st) (seq_len c),
             trace := trace st @ load_prefix @
               [E_new llama_tokenizer_buffer, E_build_tokenizer kLlamaTokenizerPath (vocab_size c),
                E_printf (Fatal_diagnostic kLlamaTokenizerPath)]\<rparr>)"
    with assms show ?thesis by simp
  next
    fix c g
    assume "LoadLlamaModel fl st =
         Inr (st\<lparr>transformer_config := c, group_size := g,
             steps := ResolveStepBudget (steps st) (seq_len c),
             trace := trace st @ load_prefix @
               [E_new llama_tokenizer_buffer, E_build_tokenizer kLlamaTokenizerPath (vocab_size c),
                E_xTaskGetTickCount, E_build_sampler (vocab_size c), E_TimerMillis,
                E_printf Llama_model_loading_took]\<rparr>)"
    with assms have "trace st' = trace st @ load_prefix @
               [E_new llama_tokenizer_buffer, E_build_tokenizer kLlamaTokenizerPath (vocab_size c),
                E_xTaskGetTickCount, E_build_sampler (vocab_size c), E_TimerMillis,
                E_printf Llama_model_loading_took]"
      by auto
    from calls_since_append[OF this] u show ?thesis
      by (simp add: load_prefix_def)
  qed
qed

theorem unload_reverses_load_witness:
  "LoadLlamaModel stories15M (boot False False) =
     Inr ((boot False False)\<lparr>transformer_config := \<lparr>seq_len = 256, vocab_size = 32000\<rparr>,
            group_size := 64, steps := 256,
            trace := load_prefix @
               [E_new llama_tokenizer_buffer, E_build_tokenizer kLlamaTokenizerPath 32000,
                E_xTaskGetTickCount, E_build_sampler 32000, E_TimerMillis,
                E_printf Llama_model_loading_took]\<rparr>)
   \<and> List.map_filter freed (calls_since (boot True True) (UnloadLlamaModel (boot True True)))
       = [SamplerState, TokenizerTable, Weights]"
proof -
  have l: "LoadLlamaModel stories15M (boot False False) =
     Inr ((boot False False)\<lparr>transformer_config := \<lparr>seq_len = 256, vocab_size = 32000\<rparr>,
            group_size := 64, steps := 256,
            trace := load_prefix @
               [E_new llama_tokenizer_buffer, E_build_tokenizer kLlamaTokenizerPath 32000,
                E_xTaskGetTickCount, E_build_sampler 32000, E_TimerMillis,
                E_printf Llama_model_loading_took]\<rparr>)"
    by (simp add: LoadLlamaModel_def build_transformer_def build_tokenizer_def emit_def
          stories15M_def boot_def ResolveStepBudget_def kSteps_def load_prefix_def)
  from unload_reverses_load[OF l, of "boot True True"] l show ?thesis by blast
qed

end
